theory Spec2Isabelle
  imports Main
begin

section \<open>The service worker \<^verbatim>\<open>sw.js\<close>: data model\<close>

text \<open>
  The worker is event driven: each handler runs against the browser's cache storage and
  the network. Both are outside the script, so the model makes them explicit. The cache
  storage is part of the state that every handler receives and returns; the network is an
  oracle that either yields a response or fails (the promise of \<^verbatim>\<open>fetch\<close> rejects). Every
  call that leaves the script (network, cache storage, timers, worker life cycle) is also
  appended to a trace kept in the state, so that "no network request" and "no cache
  access" are statements about that trace. Console output is not modelled.
\<close>

subsection \<open>Constants of the script\<close>

definition CACHE_NAME :: string where
  "CACHE_NAME = ''suisight-v1.0.0''"

definition STATIC_CACHE_NAME :: string where
  "STATIC_CACHE_NAME = ''suisight-static-v1.0.0''"

definition DYNAMIC_CACHE_NAME :: string where
  "DYNAMIC_CACHE_NAME = ''suisight-dynamic-v1.0.0''"

definition STATIC_ASSETS :: "string list" where
  "STATIC_ASSETS = [''/'', ''/index.html'', ''/manifest.json'', ''/Fulcrum.png'', ''/vite.svg'']"

subsection \<open>Strings\<close>

text \<open>\<^verbatim>\<open>String.prototype.startsWith\<close> and \<^verbatim>\<open>String.prototype.includes\<close> (case sensitive).\<close>

fun startsWith :: "string \<Rightarrow> string \<Rightarrow> bool" where
  "startsWith s [] = True"
| "startsWith [] (p # ps) = False"
| "startsWith (c # cs) (p # ps) = (c = p \<and> startsWith cs ps)"

fun str_includes :: "string \<Rightarrow> string \<Rightarrow> bool" where
  "str_includes [] sub = (sub = [])"
| "str_includes (c # cs) sub = (startsWith (c # cs) sub \<or> str_includes cs sub)"

subsection \<open>URLs, requests, responses\<close>

text \<open>
  A parsed URL, with the field names and conventions of the \<^verbatim>\<open>URL\<close> class: \<open>protocol\<close>
  ends with the colon, \<open>search\<close> starts with the question mark and \<open>hash\<close> with the
  number sign when they are present, \<open>port\<close> is empty for the default port. \<open>href\<close> is
  the serialisation, which is what \<^verbatim>\<open>request.url\<close> holds; the script's
  \<^verbatim>\<open>new URL(request.url)\<close> gives the record back.
\<close>

record URL =
  protocol :: string
  hostname :: string
  port :: string
  pathname :: string
  search :: string
  hash :: string

definition host :: "URL \<Rightarrow> string" where
  "host u = hostname u @ (if port u = [] then [] else '':'' @ port u)"

definition href :: "URL \<Rightarrow> string" where
  "href u = protocol u @ ''//'' @ host u @ pathname u @ search u @ hash u"

record Request =
  req_method :: string
  req_url :: URL
  req_mode :: string

text \<open>
  A response as far as the script and the cache can observe it. \<open>ok\<close> is the getter of
  the \<^verbatim>\<open>Response\<close> class: the status is in the range 200 to 299.
\<close>

record Response =
  status :: nat
  statusText :: string
  headers :: "(string \<times> string) list"
  body :: string

definition ok :: "Response \<Rightarrow> bool" where
  "ok r = (200 \<le> status r \<and> status r \<le> 299)"

text \<open>
  The identity under which the cache stores and finds a request, and under which the
  network oracle answers: the URL without its fragment (all requests that reach a cache
  are GET requests).
\<close>

definition request_key :: "Request \<Rightarrow> string" where
  "request_key request =
     (let u = req_url request in protocol u @ ''//'' @ host u @ pathname u @ search u)"

subsection \<open>Environment and state\<close>

text \<open>
  \<open>origin\<close> is the origin of the worker's scope, against which the root-relative URLs of
  the script (\<^verbatim>\<open>'/index.html'\<close> and the manifest) are resolved. \<open>network\<close> answers a
  request for a URL with \<open>Some\<close> response, or \<open>None\<close> when the fetch fails.
\<close>

record env =
  origin :: string
  network :: "string \<Rightarrow> Response option"

definition resolve :: "env \<Rightarrow> string \<Rightarrow> string" where
  "resolve e path = origin e @ path"

type_synonym Cache = "(string \<times> Response) list"

datatype effect =
    Fetch string
  | CachesOpen string
  | CachesMatch string
  | CachesKeys
  | CachesDelete string
  | CacheKeys string
  | CachePut string string Response
  | CacheDelete string string
  | SetTimeout nat string string
  | SkipWaiting
  | ClientsClaim

text \<open>
  \<open>caches\<close> is the cache storage: the named caches in creation order, each holding its
  entries in insertion order (the order \<^verbatim>\<open>cache.keys()\<close> enumerates).
  \<open>SetTimeout d n k\<close> records a timer of \<open>d\<close> milliseconds whose callback deletes key
  \<open>k\<close> from cache \<open>n\<close>.
\<close>

record sw_state =
  caches :: "(string \<times> Cache) list"
  effects :: "effect list"

definition emit :: "effect \<Rightarrow> sw_state \<Rightarrow> sw_state" where
  "emit e st = st\<lparr>effects := effects st @ [e]\<rparr>"

subsection \<open>Cache storage operations\<close>

text \<open>
  What a cache refuses to store. \<^verbatim>\<open>cache.put\<close> and \<^verbatim>\<open>cache.addAll\<close> reject a partial
  response (status 206) and a response whose \<^verbatim>\<open>Vary\<close> header lists \<^verbatim>\<open>*\<close>; their promise
  rejects and nothing is stored. Header names compare without regard to case; a header
  value is a comma-separated list whose fields are trimmed of spaces and tabs.
\<close>

definition lower :: "char \<Rightarrow> char" where
  "lower c =
     (case map_of (zip ''ABCDEFGHIJKLMNOPQRSTUVWXYZ'' ''abcdefghijklmnopqrstuvwxyz'') c of
        Some l \<Rightarrow> l
      | None \<Rightarrow> c)"

definition is_space :: "char \<Rightarrow> bool" where
  "is_space c = (c = CHR '' '' \<or> c = CHR 0x09)"

definition trim :: "string \<Rightarrow> string" where
  "trim s = rev (dropWhile is_space (rev (dropWhile is_space s)))"

fun fields :: "string \<Rightarrow> string \<Rightarrow> string list" where
  "fields acc [] = [rev acc]"
| "fields acc (c # cs) =
     (if c = CHR '','' then rev acc # fields [] cs else fields (c # acc) cs)"

definition vary_values :: "Response \<Rightarrow> string list" where
  "vary_values r =
     concat (map (\<lambda>h. map trim (fields [] (snd h)))
               (filter (\<lambda>h. map lower (fst h) = ''vary'') (headers r)))"

definition storable :: "Response \<Rightarrow> bool" where
  "storable r = (status r \<noteq> 206 \<and> ''*'' \<notin> set (vary_values r))"

text \<open>
  Apart from that, storage operations are modelled as succeeding. A stored entry is found
  again under its URL: the further comparison of the request headers named by a stored
  \<^verbatim>\<open>Vary\<close> header, which the platform makes on every lookup, is not modelled, and so
  the properties of a cache hit below are stated for the result of the lookup.
\<close>

definition update_cache :: "string \<Rightarrow> (Cache \<Rightarrow> Cache) \<Rightarrow> (string \<times> Cache) list \<Rightarrow> (string \<times> Cache) list" where
  "update_cache name f cs = map (\<lambda>(n, c). if n = name then (n, f c) else (n, c)) cs"

definition remove_key :: "string \<Rightarrow> Cache \<Rightarrow> Cache" where
  "remove_key k c = filter (\<lambda>entry. fst entry \<noteq> k) c"

text \<open>\<^verbatim>\<open>caches.open(name)\<close>: creates the cache when it does not exist.\<close>

definition caches_open :: "string \<Rightarrow> sw_state \<Rightarrow> sw_state" where
  "caches_open name st =
     emit (CachesOpen name)
       (if name \<in> set (map fst (caches st)) then st
        else st\<lparr>caches := caches st @ [(name, [])]\<rparr>)"

text \<open>\<^verbatim>\<open>caches.match(request)\<close>: the first match over the caches in creation order.\<close>

fun match_all :: "string \<Rightarrow> (string \<times> Cache) list \<Rightarrow> Response option" where
  "match_all k [] = None"
| "match_all k ((n, c) # cs) =
     (case map_of c k of Some r \<Rightarrow> Some r | None \<Rightarrow> match_all k cs)"

definition caches_match :: "string \<Rightarrow> sw_state \<Rightarrow> Response option \<times> sw_state" where
  "caches_match k st = (match_all k (caches st), emit (CachesMatch k) st)"

text \<open>\<^verbatim>\<open>caches.keys()\<close> and \<^verbatim>\<open>caches.delete(name)\<close>.\<close>

definition caches_keys :: "sw_state \<Rightarrow> string list \<times> sw_state" where
  "caches_keys st = (map fst (caches st), emit CachesKeys st)"

definition caches_delete :: "string \<Rightarrow> sw_state \<Rightarrow> sw_state" where
  "caches_delete name st =
     emit (CachesDelete name) (st\<lparr>caches := filter (\<lambda>p. fst p \<noteq> name) (caches st)\<rparr>)"

text \<open>
  \<^verbatim>\<open>cache.put\<close> replaces the entry of the same identity and enqueues the new one last,
  unless it refuses the response, which leaves the cache as it was;
  \<^verbatim>\<open>cache.delete\<close> removes it; \<^verbatim>\<open>cache.keys\<close> enumerates in insertion order.
\<close>

definition cache_put :: "string \<Rightarrow> string \<Rightarrow> Response \<Rightarrow> sw_state \<Rightarrow> sw_state" where
  "cache_put name k r st =
     emit (CachePut name k r)
       (if storable r
        then st\<lparr>caches := update_cache name (\<lambda>c. remove_key k c @ [(k, r)]) (caches st)\<rparr>
        else st)"

definition cache_delete :: "string \<Rightarrow> string \<Rightarrow> sw_state \<Rightarrow> sw_state" where
  "cache_delete name k st =
     emit (CacheDelete name k) (st\<lparr>caches := update_cache name (remove_key k) (caches st)\<rparr>)"

definition entries_of :: "string \<Rightarrow> sw_state \<Rightarrow> Cache" where
  "entries_of name st = (case map_of (caches st) name of Some c \<Rightarrow> c | None \<Rightarrow> [])"

definition cache_keys :: "string \<Rightarrow> sw_state \<Rightarrow> string list \<times> sw_state" where
  "cache_keys name st = (map fst (entries_of name st), emit (CacheKeys name) st)"

text \<open>\<^verbatim>\<open>fetch(request)\<close>: one call to the network.\<close>

definition fetch :: "env \<Rightarrow> string \<Rightarrow> sw_state \<Rightarrow> Response option \<times> sw_state" where
  "fetch e u st = (network e u, emit (Fetch u) st)"

section \<open>The fetch handler\<close>

text \<open>
  The handler either returns without calling \<^verbatim>\<open>event.respondWith\<close> (\<open>NotHandled\<close>: the
  browser serves the request itself) or responds with a promise. In this model the promise
  always fulfils; \<open>RespondWith None\<close> is fulfilment with \<^verbatim>\<open>undefined\<close>, which is what
  \<^verbatim>\<open>caches.match\<close> yields when nothing matches: the page then sees no response.
\<close>

datatype outcome = NotHandled | RespondWith "Response option"

datatype lane = SKIP | API_LANE | PAGE_LANE

text \<open>The three branches of the handler, lines 63 to 74.\<close>

definition classify :: "Request \<Rightarrow> lane" where
  "classify request =
     (let url = req_url request in
      if req_method request \<noteq> ''GET'' then SKIP
      else if \<not> startsWith (href (req_url request)) ''http'' then SKIP
      else if str_includes (hostname url) ''sui'' \<or> str_includes (pathname url) ''api'' then API_LANE
      else PAGE_LANE)"

text \<open>The response synthesised at lines 137 to 143.\<close>

definition offline_response :: Response where
  "offline_response =
     \<lparr>status = 503, statusText = ''Service Unavailable'',
      headers = [(''Content-Type'', ''text/plain'')], body = ''Offline''\<rparr>"

text \<open>
  Lines 75 to 96. The cache write is not awaited by the response; it is applied to the
  state that the handler leaves behind. The timer callback deletes the entry again.
\<close>

definition api_lane :: "env \<Rightarrow> Request \<Rightarrow> sw_state \<Rightarrow> outcome \<times> sw_state" where
  "api_lane e request st =
     (case fetch e (request_key request) st of
        (Some response, st1) \<Rightarrow>
          if ok response then
            (RespondWith (Some response),
             emit (SetTimeout (5 * 60 * 1000) DYNAMIC_CACHE_NAME (request_key request))
               (cache_put DYNAMIC_CACHE_NAME (request_key request) response
                  (caches_open DYNAMIC_CACHE_NAME st1)))
          else (RespondWith (Some response), st1)
      | (None, st1) \<Rightarrow>
          (case caches_match (request_key request) st1 of
             (cached, st2) \<Rightarrow> (RespondWith cached, st2)))"

text \<open>Lines 101 to 146.\<close>

definition page_lane :: "env \<Rightarrow> Request \<Rightarrow> sw_state \<Rightarrow> outcome \<times> sw_state" where
  "page_lane e request st =
     (case caches_match (request_key request) st of
        (Some cachedResponse, st1) \<Rightarrow> (RespondWith (Some cachedResponse), st1)
      | (None, st1) \<Rightarrow>
          (case fetch e (request_key request) st1 of
             (Some response, st2) \<Rightarrow>
               if \<not> ok response then (RespondWith (Some response), st2)
               else
                 (RespondWith (Some response),
                  cache_put DYNAMIC_CACHE_NAME (request_key request) response
                    (caches_open DYNAMIC_CACHE_NAME st2))
           | (None, st2) \<Rightarrow>
               if req_mode request = ''navigate'' then
                 (case caches_match (resolve e ''/index.html'') st2 of
                    (fallback, st3) \<Rightarrow> (RespondWith fallback, st3))
               else (RespondWith (Some offline_response), st2)))"

definition fetch_handler :: "env \<Rightarrow> Request \<Rightarrow> sw_state \<Rightarrow> outcome \<times> sw_state" where
  "fetch_handler e request st =
     (case classify request of
        SKIP \<Rightarrow> (NotHandled, st)
      | API_LANE \<Rightarrow> api_lane e request st
      | PAGE_LANE \<Rightarrow> page_lane e request st)"

text \<open>What a handler added to the trace of the state it started from.\<close>

definition new_effects :: "sw_state \<Rightarrow> sw_state \<Rightarrow> effect list" where
  "new_effects st st' = drop (length (effects st)) (effects st')"

section \<open>The life cycle handlers\<close>

text \<open>How the promise handed to \<^verbatim>\<open>event.waitUntil\<close> settles.\<close>

datatype settled = Fulfilled | Rejected

text \<open>
  \<^verbatim>\<open>cache.addAll(urls)\<close> fetches every URL and stores the responses only when every
  fetch succeeded with an \<open>ok\<close> response that the cache does not refuse; otherwise its
  promise rejects (\<open>False\<close>) and nothing is stored.
\<close>

definition addAll_accepts :: "Response option \<Rightarrow> bool" where
  "addAll_accepts x = (case x of Some r \<Rightarrow> ok r \<and> storable r | None \<Rightarrow> False)"

definition cache_addAll :: "env \<Rightarrow> string \<Rightarrow> string list \<Rightarrow> sw_state \<Rightarrow> bool \<times> sw_state" where
  "cache_addAll e name urls st =
     (let st1 = fold (\<lambda>u. emit (Fetch u)) urls st in
      if list_all (\<lambda>u. addAll_accepts (network e u)) urls then
        (True,
         fold (\<lambda>u s. case network e u of Some r \<Rightarrow> cache_put name u r s | None \<Rightarrow> s) urls st1)
      else (False, st1))"

text \<open>
  Lines 16 to 33. \<^verbatim>\<open>skipWaiting\<close> is in the chain after \<^verbatim>\<open>addAll\<close>; the final
  \<^verbatim>\<open>catch\<close> turns a rejection into a fulfilled promise.
\<close>

definition install_handler :: "env \<Rightarrow> sw_state \<Rightarrow> settled \<times> sw_state" where
  "install_handler e st =
     (case cache_addAll e STATIC_CACHE_NAME (map (resolve e) STATIC_ASSETS)
             (caches_open STATIC_CACHE_NAME st) of
        (True, st1) \<Rightarrow> (Fulfilled, emit SkipWaiting st1)
      | (False, st1) \<Rightarrow> (Fulfilled, st1))"

text \<open>Lines 36 to 56.\<close>

definition delete_if_old :: "string \<Rightarrow> sw_state \<Rightarrow> sw_state" where
  "delete_if_old cacheName st =
     (if cacheName \<noteq> STATIC_CACHE_NAME \<and> cacheName \<noteq> DYNAMIC_CACHE_NAME
      then caches_delete cacheName st else st)"

definition activate_handler :: "sw_state \<Rightarrow> settled \<times> sw_state" where
  "activate_handler st =
     (case caches_keys st of
        (cacheNames, st1) \<Rightarrow> (Fulfilled, emit ClientsClaim (fold delete_if_old cacheNames st1)))"

section \<open>Cache size management\<close>

text \<open>
  Lines 251 to 261. \<open>maxItems\<close> is a number of entries (the script passes 50);
  \<^verbatim>\<open>keys.slice(0, keys.length - maxItems)\<close> is \<open>take\<close>.
\<close>

definition limitCacheSize :: "string \<Rightarrow> nat \<Rightarrow> sw_state \<Rightarrow> sw_state" where
  "limitCacheSize cacheName maxItems st =
     (case cache_keys cacheName (caches_open cacheName st) of
        (keys, st1) \<Rightarrow>
          if length keys > maxItems then
            (let keysToDelete = take (length keys - maxItems) keys
             in fold (cache_delete cacheName) keysToDelete st1)
          else st1)"

section \<open>Concrete inputs\<close>

definition site :: string where
  "site = ''http://localhost:5173''"

definition no_network :: "string \<Rightarrow> Response option" where
  "no_network u = None"

definition res200 :: Response where
  "res200 = \<lparr>status = 200, statusText = ''OK'', headers = [], body = ''live''\<rparr>"

definition res404 :: Response where
  "res404 = \<lparr>status = 404, statusText = ''Not Found'', headers = [], body = ''missing''\<rparr>"

definition net200 :: "string \<Rightarrow> Response option" where
  "net200 u = Some res200"

definition net404 :: "string \<Rightarrow> Response option" where
  "net404 u = Some res404"

definition res206 :: Response where
  "res206 =
     \<lparr>status = 206, statusText = ''Partial Content'',
      headers = [(''Content-Range'', ''bytes 0-3/9'')], body = ''live''\<rparr>"

definition net206 :: "string \<Rightarrow> Response option" where
  "net206 u = Some res206"

definition res_vary_any :: Response where
  "res_vary_any =
     \<lparr>status = 200, statusText = ''OK'', headers = [(''Vary'', ''Accept, *'')],
      body = ''live''\<rparr>"

definition net_vary_any :: "string \<Rightarrow> Response option" where
  "net_vary_any u = Some res_vary_any"

definition offline_env :: env where
  "offline_env = \<lparr>origin = site, network = no_network\<rparr>"

definition online_env :: env where
  "online_env = \<lparr>origin = site, network = net200\<rparr>"

definition failing_env :: env where
  "failing_env = \<lparr>origin = site, network = net404\<rparr>"

definition partial_env :: env where
  "partial_env = \<lparr>origin = site, network = net206\<rparr>"

definition vary_any_env :: env where
  "vary_any_env = \<lparr>origin = site, network = net_vary_any\<rparr>"

definition rpc_request :: Request where
  "rpc_request =
     \<lparr>req_method = ''GET'',
      req_url = \<lparr>protocol = ''https:'', hostname = ''fullnode.mainnet.sui.io'', port = [],
                 pathname = ''/health'', search = [], hash = []\<rparr>,
      req_mode = ''cors''\<rparr>"

definition post_request :: Request where
  "post_request = rpc_request\<lparr>req_method := ''POST''\<rparr>"

definition dashboard_request :: Request where
  "dashboard_request =
     \<lparr>req_method = ''GET'',
      req_url = \<lparr>protocol = ''http:'', hostname = ''localhost'', port = ''5173'',
                 pathname = ''/dashboard'', search = [], hash = []\<rparr>,
      req_mode = ''navigate''\<rparr>"

definition icon_request :: Request where
  "icon_request =
     \<lparr>req_method = ''GET'',
      req_url = \<lparr>protocol = ''http:'', hostname = ''localhost'', port = ''5173'',
                 pathname = ''/icons/foo.png'', search = [], hash = []\<rparr>,
      req_mode = ''no-cors''\<rparr>"

definition index_snapshot :: Response where
  "index_snapshot = \<lparr>status = 200, statusText = ''OK'', headers = [], body = ''<html>''\<rparr>"

definition icon_snapshot :: Response where
  "icon_snapshot = \<lparr>status = 200, statusText = ''OK'', headers = [], body = ''png''\<rparr>"

definition empty_state :: sw_state where
  "empty_state = \<lparr>caches = [], effects = []\<rparr>"

definition preloaded_state :: sw_state where
  "preloaded_state =
     \<lparr>caches = [(STATIC_CACHE_NAME, [(site @ ''/index.html'', index_snapshot)]),
                (DYNAMIC_CACHE_NAME,
                 [(''http://localhost:5173/icons/foo.png'', icon_snapshot)])],
      effects = []\<rparr>"

definition upgrade_state :: sw_state where
  "upgrade_state =
     \<lparr>caches = [(''suisight-static-v0.9.0'', [(site @ ''/index.html'', index_snapshot)]),
                (''suisight-dynamic-v0.9.0'', []),
                (STATIC_CACHE_NAME, [(site @ ''/index.html'', index_snapshot)]),
                (DYNAMIC_CACHE_NAME,
                 [(''http://localhost:5173/icons/foo.png'', icon_snapshot)])],
      effects = []\<rparr>"

definition full_state :: sw_state where
  "full_state =
     \<lparr>caches = [(DYNAMIC_CACHE_NAME,
                 [(''https://a.example/1'', res200), (''https://a.example/2'', icon_snapshot),
                  (''https://a.example/3'', index_snapshot)])],
      effects = []\<rparr>"

section \<open>Properties\<close>

subsection \<open>Strings and cache storage\<close>

lemma startsWith_iff: "startsWith s p \<longleftrightarrow> (\<exists>t. s = p @ t)"
  by (induction s p rule: startsWith.induct) auto

lemma str_includes_iff: "str_includes s sub \<longleftrightarrow> (\<exists>a b. s = a @ sub @ b)"
proof (induction s)
  case Nil
  then show ?case by auto
next
  case (Cons c cs)
  show ?case
  proof
    assume "str_includes (c # cs) sub"
    then consider "startsWith (c # cs) sub" | "str_includes cs sub" by auto
    then show "\<exists>a b. c # cs = a @ sub @ b"
    proof cases
      case 1
      then obtain t where "c # cs = sub @ t" by (auto simp: startsWith_iff)
      then have "c # cs = [] @ sub @ t" by simp
      then show ?thesis by blast
    next
      case 2
      then obtain a b where "cs = a @ sub @ b" using Cons.IH by auto
      then have "c # cs = (c # a) @ sub @ b" by simp
      then show ?thesis by blast
    qed
  next
    assume "\<exists>a b. c # cs = a @ sub @ b"
    then obtain a b where ab: "c # cs = a @ sub @ b" by blast
    show "str_includes (c # cs) sub"
    proof (cases a)
      case Nil
      then have "startsWith (c # cs) sub" using ab by (auto simp: startsWith_iff)
      then show ?thesis by simp
    next
      case (Cons x xs)
      then have "cs = xs @ sub @ b" using ab by simp
      then have "str_includes cs sub" using Cons.IH by blast
      then show ?thesis by simp
    qed
  qed
qed

lemma caches_emit [simp]: "caches (emit x st) = caches st"
  by (simp add: emit_def)

lemma effects_emit [simp]: "effects (emit x st) = effects st @ [x]"
  by (simp add: emit_def)

lemma new_effects_append: "effects st' = effects st @ xs \<Longrightarrow> new_effects st st' = xs"
  by (simp add: new_effects_def)

lemma effects_caches_open [simp]: "effects (caches_open n st) = effects st @ [CachesOpen n]"
  by (simp add: caches_open_def)

lemma effects_cache_put [simp]: "effects (cache_put n k r st) = effects st @ [CachePut n k r]"
  by (simp add: cache_put_def)

lemma effects_cache_delete [simp]: "effects (cache_delete n k st) = effects st @ [CacheDelete n k]"
  by (simp add: cache_delete_def)

lemma effects_caches_delete [simp]: "effects (caches_delete n st) = effects st @ [CachesDelete n]"
  by (simp add: caches_delete_def)

lemma caches_cache_delete [simp]:
  "caches (cache_delete n k st) = update_cache n (remove_key k) (caches st)"
  by (simp add: cache_delete_def)

lemma caches_caches_delete [simp]:
  "caches (caches_delete n st) = filter (\<lambda>p. fst p \<noteq> n) (caches st)"
  by (simp add: caches_delete_def)

lemma map_of_update_cache:
  "map_of (update_cache name f cs) n = (if n = name then map_option f (map_of cs n) else map_of cs n)"
  by (induction cs) (auto simp: update_cache_def)

lemma update_cache_comp: "update_cache n f (update_cache n g cs) = update_cache n (\<lambda>c. f (g c)) cs"
  by (induction cs) (auto simp: update_cache_def)

lemma update_cache_id: "update_cache n (\<lambda>c. c) cs = cs"
  by (induction cs) (auto simp: update_cache_def)

lemma fold_cache_delete_caches:
  "caches (fold (cache_delete n) ks st) = update_cache n (fold remove_key ks) (caches st)"
proof (induction ks arbitrary: st)
  case Nil
  then show ?case by (simp add: update_cache_id id_def)
next
  case (Cons k ks)
  then show ?case by (simp add: update_cache_comp comp_def)
qed

lemma fold_cache_delete_effects:
  "effects (fold (cache_delete n) ks st) = effects st @ map (CacheDelete n) ks"
  by (induction ks arbitrary: st) auto

lemma map_of_filter_key:
  "map_of (filter (\<lambda>p. P (fst p)) xs) k = (if P k then map_of xs k else None)"
  by (induction xs) auto

lemma remove_key_absent: "k \<notin> fst ` set c \<Longrightarrow> remove_key k c = c"
  by (induction c) (auto simp: remove_key_def)

lemma fold_remove_oldest:
  "distinct (map fst es) \<Longrightarrow> fold remove_key (take n (map fst es)) es = drop n es"
proof (induction es arbitrary: n)
  case Nil
  then show ?case by simp
next
  case (Cons p es)
  show ?case
  proof (cases n)
    case 0
    then show ?thesis by simp
  next
    case (Suc m)
    have absent: "fst p \<notin> fst ` set es" using Cons.prems by auto
    have "remove_key (fst p) (p # es) = es"
      using remove_key_absent [OF absent] by (simp add: remove_key_def)
    moreover have "fold remove_key (take m (map fst es)) es = drop m es"
      using Cons.IH Cons.prems by simp
    ultimately show ?thesis using Suc by simp
  qed
qed

lemma map_of_caches_open:
  "map_of (caches (caches_open n st)) m =
     (if m = n \<and> map_of (caches st) n = None then Some [] else map_of (caches st) m)"
proof (cases "n \<in> fst ` set (caches st)")
  case True
  then have "map_of (caches st) n \<noteq> None" by (simp add: map_of_eq_None_iff)
  then show ?thesis using True by (simp add: caches_open_def)
next
  case False
  then have none: "map_of (caches st) n = None" by (simp add: map_of_eq_None_iff)
  then show ?thesis using False by (simp add: caches_open_def map_add_def split: option.splits)
qed

lemma entries_of_caches_open: "entries_of n (caches_open m st) = entries_of n st"
  by (simp add: entries_of_def map_of_caches_open)

subsection \<open>Eviction\<close>

text \<open>A cache that does not exceed the limit is only enumerated, and keeps every entry.\<close>

lemma limitCacheSize_within_limit:
  assumes "length (entries_of name st) \<le> maxItems"
  shows "limitCacheSize name maxItems st = emit (CacheKeys name) (caches_open name st)"
    and "entries_of name (limitCacheSize name maxItems st) = entries_of name st"
proof -
  show eq: "limitCacheSize name maxItems st = emit (CacheKeys name) (caches_open name st)"
    using assms by (simp add: limitCacheSize_def cache_keys_def entries_of_caches_open)
  have "entries_of name (emit (CacheKeys name) (caches_open name st)) =
        entries_of name (caches_open name st)"
    by (simp add: entries_of_def)
  then show "entries_of name (limitCacheSize name maxItems st) = entries_of name st"
    unfolding eq by (simp add: entries_of_caches_open)
qed

text \<open>
  C2. In a cache whose \<open>N\<close> entries \<open>es\<close> (distinct identities, in insertion order) exceed
  \<open>maxItems\<close>, \<open>limitCacheSize\<close> deletes exactly the \<open>N - maxItems\<close> oldest identities,
  in that order, and leaves the last \<open>maxItems\<close> entries as they were; no other cache
  changes.
\<close>

theorem limitCacheSize_evicts_oldest:
  assumes "map_of (caches st) name = Some es"
    and "distinct (map fst es)"
    and "maxItems < length es"
  shows "entries_of name (limitCacheSize name maxItems st) = drop (length es - maxItems) es
       \<and> length (entries_of name (limitCacheSize name maxItems st)) = maxItems
       \<and> new_effects st (limitCacheSize name maxItems st) =
           [CachesOpen name, CacheKeys name] @
           map (CacheDelete name) (take (length es - maxItems) (map fst es))
       \<and> (\<forall>other. other \<noteq> name \<longrightarrow>
            map_of (caches (limitCacheSize name maxItems st)) other = map_of (caches st) other)"
proof -
  let ?st1 = "caches_open name st"
  have open1: "map_of (caches ?st1) = map_of (caches st)"
    using assms(1) by (auto simp: map_of_caches_open fun_eq_iff)
  have keys: "entries_of name ?st1 = es"
    using assms(1) open1 by (simp add: entries_of_def)
  let ?ks = "take (length es - maxItems) (map fst es)"
  have lim: "limitCacheSize name maxItems st = fold (cache_delete name) ?ks (emit (CacheKeys name) ?st1)"
    using assms(3) keys by (simp add: limitCacheSize_def cache_keys_def Let_def)
  have c: "map_of (caches (limitCacheSize name maxItems st)) n =
     (if n = name then map_option (fold remove_key ?ks) (map_of (caches st) n) else map_of (caches st) n)" for n
    unfolding lim by (simp add: fold_cache_delete_caches map_of_update_cache open1)
  have e1: "entries_of name (limitCacheSize name maxItems st) = drop (length es - maxItems) es"
    using c [of name] assms(1) fold_remove_oldest [OF assms(2)] by (simp add: entries_of_def)
  have e2: "length (entries_of name (limitCacheSize name maxItems st)) = maxItems"
    unfolding e1 using assms(3) by simp
  have e3: "new_effects st (limitCacheSize name maxItems st) =
           [CachesOpen name, CacheKeys name] @ map (CacheDelete name) ?ks"
    by (rule new_effects_append) (simp add: lim fold_cache_delete_effects)
  show ?thesis using e1 e2 e3 c by simp
qed


theorem limitCacheSize_evicts_oldest_witness:
  "map_of (caches full_state) DYNAMIC_CACHE_NAME =
     Some [(''https://a.example/1'', res200), (''https://a.example/2'', icon_snapshot),
           (''https://a.example/3'', index_snapshot)]
   \<and> entries_of DYNAMIC_CACHE_NAME (limitCacheSize DYNAMIC_CACHE_NAME 1 full_state) =
       [(''https://a.example/3'', index_snapshot)]
   \<and> new_effects full_state (limitCacheSize DYNAMIC_CACHE_NAME 1 full_state) =
       [CachesOpen DYNAMIC_CACHE_NAME, CacheKeys DYNAMIC_CACHE_NAME,
        CacheDelete DYNAMIC_CACHE_NAME ''https://a.example/1'',
        CacheDelete DYNAMIC_CACHE_NAME ''https://a.example/2'']"
proof -
  let ?es = "[(''https://a.example/1'', res200), (''https://a.example/2'', icon_snapshot),
              (''https://a.example/3'', index_snapshot)]"
  have h1: "map_of (caches full_state) DYNAMIC_CACHE_NAME = Some ?es"
    by (simp add: full_state_def)
  have h2: "distinct (map fst ?es)" by simp
  have h3: "1 < length ?es" by simp
  show ?thesis using h1 limitCacheSize_evicts_oldest [OF h1 h2 h3] by simp
qed

subsection \<open>The fetch handler by cases\<close>

lemma match_all_Some: "match_all k cs = Some r \<Longrightarrow> \<exists>n c. (n, c) \<in> set cs \<and> map_of c k = Some r"
  by (induction k cs rule: match_all.induct) (auto split: option.splits)

lemma match_all_None_iff: "match_all k cs = None \<longleftrightarrow> (\<forall>(n, c) \<in> set cs. map_of c k = None)"
  by (induction k cs rule: match_all.induct) (auto split: option.splits)

lemma fetch_handler_outcome:
  "fst (fetch_handler e request st) =
     (case classify request of
        SKIP \<Rightarrow> NotHandled
      | API_LANE \<Rightarrow>
          (case network e (request_key request) of
             Some r \<Rightarrow> RespondWith (Some r)
           | None \<Rightarrow> RespondWith (match_all (request_key request) (caches st)))
      | PAGE_LANE \<Rightarrow>
          (case match_all (request_key request) (caches st) of
             Some c \<Rightarrow> RespondWith (Some c)
           | None \<Rightarrow>
               (case network e (request_key request) of
                  Some r \<Rightarrow> RespondWith (Some r)
                | None \<Rightarrow>
                    if req_mode request = ''navigate''
                    then RespondWith (match_all (resolve e ''/index.html'') (caches st))
                    else RespondWith (Some offline_response))))"
  by (simp add: fetch_handler_def api_lane_def page_lane_def fetch_def caches_match_def
      split: lane.splits option.splits)

lemma fetch_handler_effects:
  "new_effects st (snd (fetch_handler e request st)) =
     (case classify request of
        SKIP \<Rightarrow> []
      | API_LANE \<Rightarrow>
          (case network e (request_key request) of
             Some r \<Rightarrow>
               if ok r
               then [Fetch (request_key request), CachesOpen DYNAMIC_CACHE_NAME,
                     CachePut DYNAMIC_CACHE_NAME (request_key request) r,
                     SetTimeout 300000 DYNAMIC_CACHE_NAME (request_key request)]
               else [Fetch (request_key request)]
           | None \<Rightarrow> [Fetch (request_key request), CachesMatch (request_key request)])
      | PAGE_LANE \<Rightarrow>
          (case match_all (request_key request) (caches st) of
             Some c \<Rightarrow> [CachesMatch (request_key request)]
           | None \<Rightarrow>
               (case network e (request_key request) of
                  Some r \<Rightarrow>
                    if ok r
                    then [CachesMatch (request_key request), Fetch (request_key request),
                          CachesOpen DYNAMIC_CACHE_NAME,
                          CachePut DYNAMIC_CACHE_NAME (request_key request) r]
                    else [CachesMatch (request_key request), Fetch (request_key request)]
                | None \<Rightarrow>
                    if req_mode request = ''navigate''
                    then [CachesMatch (request_key request), Fetch (request_key request),
                          CachesMatch (resolve e ''/index.html'')]
                    else [CachesMatch (request_key request), Fetch (request_key request)])))"
  by (simp add: fetch_handler_def api_lane_def page_lane_def fetch_def caches_match_def
      new_effects_def split: lane.splits option.splits)


lemma caches_cache_put:
  "caches (cache_put n k r st) =
     (if storable r then update_cache n (\<lambda>c. remove_key k c @ [(k, r)]) (caches st)
      else caches st)"
  by (simp add: cache_put_def)

lemma entries_of_emit [simp]: "entries_of n (emit x st) = entries_of n st"
  by (simp add: entries_of_def)

lemma entries_of_cache_put:
  "entries_of n (cache_put m k r st) =
     (if m = n \<and> storable r \<and> map_of (caches st) n \<noteq> None
      then remove_key k (entries_of n st) @ [(k, r)]
      else entries_of n st)"
  by (auto simp: entries_of_def caches_cache_put map_of_update_cache split: option.splits)

lemma entries_of_put_after_open:
  "entries_of n (cache_put n k r (caches_open n st)) =
     (if storable r then remove_key k (entries_of n st) @ [(k, r)] else entries_of n st)"
  by (auto simp: entries_of_cache_put entries_of_caches_open map_of_caches_open)

lemma map_of_caches_put_other:
  "m \<noteq> n \<Longrightarrow> map_of (caches (cache_put n k r (caches_open n st))) m = map_of (caches st) m"
  by (simp add: caches_cache_put map_of_update_cache map_of_caches_open)

lemma fetch_handler_dynamic_entries:
  "entries_of DYNAMIC_CACHE_NAME (snd (fetch_handler e request st)) =
     (case network e (request_key request) of
        Some r \<Rightarrow>
          if (classify request = API_LANE \<or>
              classify request = PAGE_LANE \<and>
              match_all (request_key request) (caches st) = None) \<and> ok r \<and> storable r
          then remove_key (request_key request) (entries_of DYNAMIC_CACHE_NAME st) @
               [(request_key request, r)]
          else entries_of DYNAMIC_CACHE_NAME st
      | None \<Rightarrow> entries_of DYNAMIC_CACHE_NAME st)"
proof -
  have put: "entries_of DYNAMIC_CACHE_NAME
               (cache_put DYNAMIC_CACHE_NAME k r (caches_open DYNAMIC_CACHE_NAME (emit x st'))) =
             (if storable r then remove_key k (entries_of DYNAMIC_CACHE_NAME st') @ [(k, r)]
              else entries_of DYNAMIC_CACHE_NAME st')" for k r x st'
    using entries_of_put_after_open [of DYNAMIC_CACHE_NAME k r "emit x st'"] by simp
  show ?thesis
    by (simp add: fetch_handler_def api_lane_def page_lane_def fetch_def caches_match_def
        put split: lane.splits option.splits)
qed

lemma fetch_handler_other_caches:
  assumes "m \<noteq> DYNAMIC_CACHE_NAME"
  shows "map_of (caches (snd (fetch_handler e request st))) m = map_of (caches st) m"
proof -
  have put: "map_of (caches (cache_put DYNAMIC_CACHE_NAME k r
                               (caches_open DYNAMIC_CACHE_NAME (emit x st')))) m =
             map_of (caches st') m" for k r x st'
    using map_of_caches_put_other [OF assms, of k r "emit x st'"] by simp
  show ?thesis
    by (simp add: fetch_handler_def api_lane_def page_lane_def fetch_def caches_match_def
        put split: lane.splits option.splits)
qed

subsection \<open>Routing\<close>

text \<open>
  C3. A GET request over http or https whose hostname contains \<open>sui\<close> or whose path
  contains \<open>api\<close> is put in the API lane and served by the network-first strategy, whatever
  its port, query, fragment and the rest of its path are.
\<close>

theorem marker_requests_take_api_lane:
  assumes "req_method request = ''GET''"
    and "protocol (req_url request) = ''http:'' \<or> protocol (req_url request) = ''https:''"
    and "(\<exists>a b. hostname (req_url request) = a @ ''sui'' @ b) \<or>
         (\<exists>a b. pathname (req_url request) = a @ ''api'' @ b)"
  shows "classify request = API_LANE \<and> fetch_handler e request st = api_lane e request st"
proof -
  have "\<exists>t. href (req_url request) = ''http'' @ t"
    using assms(2) by (auto simp: href_def)
  then have http: "startsWith (href (req_url request)) ''http''"
    by (simp only: startsWith_iff)
  have marker: "str_includes (hostname (req_url request)) ''sui'' \<or>
                str_includes (pathname (req_url request)) ''api''"
    using assms(3) by (simp only: str_includes_iff)
  have "classify request = API_LANE"
    using assms(1) http marker by (simp add: classify_def Let_def)
  then show ?thesis by (simp add: fetch_handler_def)
qed

theorem marker_requests_take_api_lane_witness:
  "classify rpc_request = API_LANE \<and>
   classify (rpc_request\<lparr>req_url := (req_url rpc_request)\<lparr>port := ''8443'', search := ''?v=1'', hash := ''#top''\<rparr>\<rparr>) = API_LANE \<and>
   fetch_handler offline_env rpc_request empty_state = api_lane offline_env rpc_request empty_state"
proof -
  let ?r2 = "rpc_request\<lparr>req_url := (req_url rpc_request)\<lparr>port := ''8443'', search := ''?v=1'', hash := ''#top''\<rparr>\<rparr>"
  have h1: "req_method rpc_request = ''GET''" by (simp add: rpc_request_def)
  have h2: "protocol (req_url rpc_request) = ''http:'' \<or> protocol (req_url rpc_request) = ''https:''"
    by (simp add: rpc_request_def)
  have "hostname (req_url rpc_request) = ''fullnode.mainnet.'' @ ''sui'' @ ''.io''"
    by (simp add: rpc_request_def)
  then have h3: "(\<exists>a b. hostname (req_url rpc_request) = a @ ''sui'' @ b) \<or>
         (\<exists>a b. pathname (req_url rpc_request) = a @ ''api'' @ b)" by blast
  have g1: "req_method ?r2 = ''GET''" by (simp add: rpc_request_def)
  have g2: "protocol (req_url ?r2) = ''http:'' \<or> protocol (req_url ?r2) = ''https:''"
    by (simp add: rpc_request_def)
  have "hostname (req_url ?r2) = ''fullnode.mainnet.'' @ ''sui'' @ ''.io''"
    by (simp add: rpc_request_def)
  then have g3: "(\<exists>a b. hostname (req_url ?r2) = a @ ''sui'' @ b) \<or>
         (\<exists>a b. pathname (req_url ?r2) = a @ ''api'' @ b)" by blast
  show ?thesis
    using marker_requests_take_api_lane [OF h1 h2 h3, of offline_env empty_state]
      marker_requests_take_api_lane [OF g1 g2 g3, of offline_env empty_state]
    by simp
qed

text \<open>
  C4. A request whose method is not GET is skipped: the handler returns without responding
  and leaves the state as it was, so it makes no call to the cache storage (nor to the
  network).
\<close>

theorem non_get_is_skipped:
  assumes "req_method request \<noteq> ''GET''"
  shows "classify request = SKIP
       \<and> fetch_handler e request st = (NotHandled, st)
       \<and> new_effects st (snd (fetch_handler e request st)) = []"
proof -
  have skip: "classify request = SKIP"
    using assms by (simp add: classify_def Let_def)
  then have "fetch_handler e request st = (NotHandled, st)"
    by (simp add: fetch_handler_def)
  then show ?thesis using skip by (simp add: new_effects_def)
qed

theorem non_get_is_skipped_witness:
  "req_method post_request \<noteq> ''GET''
   \<and> fetch_handler online_env post_request preloaded_state = (NotHandled, preloaded_state)"
proof -
  have h: "req_method post_request \<noteq> ''GET''" by (simp add: post_request_def)
  show ?thesis using h non_get_is_skipped [OF h, of online_env preloaded_state] by simp
qed


subsection \<open>The page lane\<close>

text \<open>
  C5. When the cache lookup for a page-lane request finds a snapshot, the handler responds
  with that snapshot. Its only call is that lookup: no network request is made, and the
  caches stay as they were.
\<close>

theorem page_lane_serves_cache_without_network:
  assumes "classify request = PAGE_LANE"
    and "match_all (request_key request) (caches st) = Some r"
  shows "fetch_handler e request st =
           (RespondWith (Some r), emit (CachesMatch (request_key request)) st)
       \<and> new_effects st (snd (fetch_handler e request st)) =
           [CachesMatch (request_key request)]
       \<and> (\<forall>u. Fetch u \<notin> set (new_effects st (snd (fetch_handler e request st))))
       \<and> caches (snd (fetch_handler e request st)) = caches st"
proof -
  have served: "fetch_handler e request st =
      (RespondWith (Some r), emit (CachesMatch (request_key request)) st)"
    using assms by (simp add: fetch_handler_def page_lane_def caches_match_def)
  have trace: "new_effects st (snd (fetch_handler e request st)) =
      [CachesMatch (request_key request)]"
    using assms by (simp add: fetch_handler_effects)
  have "\<forall>u. Fetch u \<notin> set (new_effects st (snd (fetch_handler e request st)))"
    unfolding trace by simp
  moreover have "caches (snd (fetch_handler e request st)) = caches st"
    unfolding served by simp
  ultimately show ?thesis using served trace by blast
qed

theorem page_lane_serves_cache_without_network_witness:
  "classify icon_request = PAGE_LANE
   \<and> match_all (request_key icon_request) (caches preloaded_state) = Some icon_snapshot
   \<and> fetch_handler online_env icon_request preloaded_state =
       (RespondWith (Some icon_snapshot),
        emit (CachesMatch ''http://localhost:5173/icons/foo.png'') preloaded_state)"
proof -
  have h1: "classify icon_request = PAGE_LANE"
    by (simp add: classify_def icon_request_def href_def host_def)
  have h2: "match_all (request_key icon_request) (caches preloaded_state) = Some icon_snapshot"
    by (simp add: request_key_def icon_request_def host_def preloaded_state_def site_def)
  have k: "request_key icon_request = ''http://localhost:5173/icons/foo.png''"
    by (simp add: request_key_def icon_request_def host_def)
  show ?thesis
    using h1 h2 k page_lane_serves_cache_without_network [OF h1 h2, of online_env]
    by simp
qed

text \<open>
  C6. When no cache holds an entry for a page-lane request and its network fetch fails,
  a navigation request is answered with what the caches hold for \<^verbatim>\<open>/index.html\<close>, and
  every other request with the synthesised response: status 503, status text
  "Service Unavailable", header Content-Type: text/plain, body "Offline".
\<close>

theorem page_lane_offline_fallback:
  assumes "classify request = PAGE_LANE"
    and "match_all (request_key request) (caches st) = None"
    and "network e (request_key request) = None"
  shows "(req_mode request = ''navigate'' \<longrightarrow>
            fst (fetch_handler e request st) =
              RespondWith (match_all (resolve e ''/index.html'') (caches st)))
       \<and> (req_mode request \<noteq> ''navigate'' \<longrightarrow>
            fst (fetch_handler e request st) =
              RespondWith (Some \<lparr>status = 503, statusText = ''Service Unavailable'',
                                 headers = [(''Content-Type'', ''text/plain'')],
                                 body = ''Offline''\<rparr>))"
  using assms by (simp add: fetch_handler_outcome offline_response_def)

theorem page_lane_offline_fallback_witness:
  "fst (fetch_handler offline_env dashboard_request preloaded_state) =
     RespondWith (Some index_snapshot)
   \<and> fst (fetch_handler offline_env icon_request empty_state) =
     RespondWith (Some \<lparr>status = 503, statusText = ''Service Unavailable'',
                        headers = [(''Content-Type'', ''text/plain'')], body = ''Offline''\<rparr>)"
proof -
  have a1: "classify dashboard_request = PAGE_LANE"
    by (simp add: classify_def dashboard_request_def href_def host_def)
  have a2: "match_all (request_key dashboard_request) (caches preloaded_state) = None"
    by (simp add: request_key_def dashboard_request_def host_def preloaded_state_def site_def)
  have a3: "network offline_env (request_key dashboard_request) = None"
    by (simp add: offline_env_def no_network_def)
  have a4: "req_mode dashboard_request = ''navigate''"
    by (simp add: dashboard_request_def)
  have a5: "match_all (resolve offline_env ''/index.html'') (caches preloaded_state) =
              Some index_snapshot"
    by (simp add: resolve_def offline_env_def preloaded_state_def site_def)
  have b1: "classify icon_request = PAGE_LANE"
    by (simp add: classify_def icon_request_def href_def host_def)
  have b2: "match_all (request_key icon_request) (caches empty_state) = None"
    by (simp add: empty_state_def)
  have b3: "network offline_env (request_key icon_request) = None"
    by (simp add: offline_env_def no_network_def)
  have b4: "req_mode icon_request \<noteq> ''navigate''"
    by (simp add: icon_request_def)
  show ?thesis
    using page_lane_offline_fallback [OF a1 a2 a3] page_lane_offline_fallback [OF b1 b2 b3]
      a4 a5 b4
    by simp
qed

text \<open>
  C10. When a page-lane navigation request finds no cache entry, its network fetch fails
  and no cache holds an entry for \<^verbatim>\<open>/index.html\<close>, the handler responds with no response
  object (\<^verbatim>\<open>undefined\<close>), not with the synthesised 503 response.
\<close>

theorem navigation_fallback_without_index:
  assumes "classify request = PAGE_LANE"
    and "req_mode request = ''navigate''"
    and "match_all (request_key request) (caches st) = None"
    and "network e (request_key request) = None"
    and "\<forall>(n, c) \<in> set (caches st). map_of c (resolve e ''/index.html'') = None"
  shows "fst (fetch_handler e request st) = RespondWith None
       \<and> fst (fetch_handler e request st) \<noteq> RespondWith (Some offline_response)"
proof -
  have "match_all (resolve e ''/index.html'') (caches st) = None"
    using assms(5) by (simp only: match_all_None_iff)
  then show ?thesis using assms(1-4) by (simp add: fetch_handler_outcome)
qed

theorem navigation_fallback_without_index_witness:
  "fst (fetch_handler offline_env dashboard_request empty_state) = RespondWith None"
proof -
  have a1: "classify dashboard_request = PAGE_LANE"
    by (simp add: classify_def dashboard_request_def href_def host_def)
  have a2: "req_mode dashboard_request = ''navigate''"
    by (simp add: dashboard_request_def)
  have a3: "match_all (request_key dashboard_request) (caches empty_state) = None"
    by (simp add: empty_state_def)
  have a4: "network offline_env (request_key dashboard_request) = None"
    by (simp add: offline_env_def no_network_def)
  have a5: "\<forall>(n, c) \<in> set (caches empty_state).
              map_of c (resolve offline_env ''/index.html'') = None"
    by (simp add: empty_state_def)
  show ?thesis
    using navigation_fallback_without_index [OF a1 a2 a3 a4 a5] by simp
qed


subsection \<open>Network failure\<close>

text \<open>
  C1, as stated, fails: an API-lane request whose fetch fails and that no cache holds is
  answered with no response object.
\<close>

theorem api_lane_failure_without_cache_counterexample:
  "classify rpc_request = API_LANE
   \<and> network offline_env (request_key rpc_request) = None
   \<and> fst (fetch_handler offline_env rpc_request empty_state) = RespondWith None"
  by (simp add: fetch_handler_outcome classify_def rpc_request_def href_def host_def
      offline_env_def no_network_def empty_state_def)

text \<open>
  C1, amended. When the network fetch of a handled request fails, the handler still
  responds, and its promise fulfils. It fulfils with a response object exactly in these
  cases: in the API lane, when some cache holds an entry for the request; in the page
  lane, when the request is not a navigation, or some cache holds an entry for
  \<^verbatim>\<open>/index.html\<close>. Otherwise it fulfils with no response object.
\<close>

theorem failed_fetch_resolution:
  assumes "network e (request_key request) = None"
    and "classify request \<noteq> SKIP"
    and "classify request = PAGE_LANE \<longrightarrow> match_all (request_key request) (caches st) = None"
  shows "\<exists>x. fst (fetch_handler e request st) = RespondWith x
           \<and> (x \<noteq> None \<longleftrightarrow>
                (if classify request = API_LANE
                 then match_all (request_key request) (caches st) \<noteq> None
                 else req_mode request \<noteq> ''navigate'' \<or>
                      match_all (resolve e ''/index.html'') (caches st) \<noteq> None))"
proof (cases "classify request")
  case SKIP
  then show ?thesis using assms(2) by simp
next
  case API_LANE
  then show ?thesis using assms(1) by (simp add: fetch_handler_outcome)
next
  case PAGE_LANE
  then show ?thesis using assms(1,3) by (simp add: fetch_handler_outcome)
qed

theorem failed_fetch_resolution_witness:
  "(\<exists>x. fst (fetch_handler offline_env icon_request empty_state) = RespondWith x \<and> x \<noteq> None)
   \<and> (\<exists>x. fst (fetch_handler offline_env rpc_request empty_state) = RespondWith x \<and> x = None)"
proof -
  have a1: "network offline_env (request_key icon_request) = None"
    by (simp add: offline_env_def no_network_def)
  have a2: "classify icon_request = PAGE_LANE"
    by (simp add: classify_def icon_request_def href_def host_def)
  have a3: "classify icon_request \<noteq> SKIP" using a2 by simp
  have a4: "classify icon_request = PAGE_LANE \<longrightarrow>
              match_all (request_key icon_request) (caches empty_state) = None"
    by (simp add: empty_state_def)
  have a5: "req_mode icon_request \<noteq> ''navigate''" by (simp add: icon_request_def)
  have b1: "network offline_env (request_key rpc_request) = None"
    by (simp add: offline_env_def no_network_def)
  have b2: "classify rpc_request = API_LANE"
    by (simp add: classify_def rpc_request_def href_def host_def)
  have b3: "classify rpc_request \<noteq> SKIP" using b2 by simp
  have b4: "classify rpc_request = PAGE_LANE \<longrightarrow>
              match_all (request_key rpc_request) (caches empty_state) = None"
    by (simp add: empty_state_def)
  have b5: "match_all (request_key rpc_request) (caches empty_state) = None"
    by (simp add: empty_state_def)
  show ?thesis
    using failed_fetch_resolution [OF a1 a3 a4] failed_fetch_resolution [OF b1 b3 b4]
      a2 a5 b2 b5
    by auto
qed

subsection \<open>Writes to the dynamic cache\<close>

lemma fetch_handler_caches_unchanged:
  assumes "\<not> (\<exists>r. network e (request_key request) = Some r \<and> ok r)"
  shows "caches (snd (fetch_handler e request st)) = caches st"
  using assms
  by (auto simp: fetch_handler_def api_lane_def page_lane_def fetch_def caches_match_def
      split: lane.splits option.splits)

lemma storable_res200: "storable res200"
  by (simp add: storable_def res200_def vary_values_def)

lemma not_storable_res206: "\<not> storable res206"
  by (simp add: storable_def res206_def)

lemma not_storable_res_vary_any: "\<not> storable res_vary_any"
  by (simp add: storable_def res_vary_any_def vary_values_def lower_def trim_def is_space_def)

text \<open>
  C7, as stated, fails: a partial response (status 206) is \<open>ok\<close>, the handler returns it
  and hands it to \<^verbatim>\<open>cache.put\<close>, but the cache refuses it and the dynamic cache holds
  no entry afterwards.
\<close>

theorem partial_response_not_written_counterexample:
  "classify rpc_request = API_LANE
   \<and> network partial_env (request_key rpc_request) = Some res206
   \<and> ok res206
   \<and> fst (fetch_handler partial_env rpc_request empty_state) = RespondWith (Some res206)
   \<and> entries_of DYNAMIC_CACHE_NAME (snd (fetch_handler partial_env rpc_request empty_state)) = []"
proof -
  have lane: "classify rpc_request = API_LANE"
    by (simp add: classify_def rpc_request_def href_def host_def)
  have net: "network partial_env (request_key rpc_request) = Some res206"
    by (simp add: partial_env_def net206_def)
  have ok206: "ok res206" by (simp add: ok_def res206_def)
  have "entries_of DYNAMIC_CACHE_NAME empty_state = []"
    by (simp add: entries_of_def empty_state_def)
  then have "entries_of DYNAMIC_CACHE_NAME
               (snd (fetch_handler partial_env rpc_request empty_state)) = []"
    using net not_storable_res206 by (simp add: fetch_handler_dynamic_entries)
  moreover have "fst (fetch_handler partial_env rpc_request empty_state) =
                   RespondWith (Some res206)"
    using lane net by (simp add: fetch_handler_outcome)
  ultimately show ?thesis using lane net ok206 by simp
qed

text \<open>
  C7, amended. A strategy reaches the network in the API lane, and in the page lane when
  the cache lookup misses. The dynamic cache gains an entry exactly when a strategy
  reached the network, the fetch succeeded, the response is \<open>ok\<close> and the cache does not
  refuse it (it is not a partial response and its Vary header does not list \<^verbatim>\<open>*\<close>); the
  entry stores that response under the identity of the request, last in the cache, and
  replaces an older entry of that identity. In every other case the dynamic cache holds
  what it held. A strategy that reached the network fetched, and responds with whatever
  the network answered, \<open>ok\<close> or not. When the answer was not \<open>ok\<close>, or there was none, no
  cache changes at all. No cache other than the dynamic one is ever changed. Hence, if
  every entry of the dynamic cache is \<open>ok\<close> before the request, so is every entry after it.
\<close>

theorem dynamic_partition_written_iff_ok_and_storable:
  "entries_of DYNAMIC_CACHE_NAME (snd (fetch_handler e request st)) =
     (case network e (request_key request) of
        Some r \<Rightarrow>
          if (classify request = API_LANE \<or>
              classify request = PAGE_LANE \<and>
              match_all (request_key request) (caches st) = None) \<and> ok r \<and> storable r
          then remove_key (request_key request) (entries_of DYNAMIC_CACHE_NAME st) @
               [(request_key request, r)]
          else entries_of DYNAMIC_CACHE_NAME st
      | None \<Rightarrow> entries_of DYNAMIC_CACHE_NAME st)
   \<and> (classify request = API_LANE \<or>
       classify request = PAGE_LANE \<and> match_all (request_key request) (caches st) = None \<longrightarrow>
        Fetch (request_key request) \<in> set (new_effects st (snd (fetch_handler e request st))) \<and>
        (\<forall>r. network e (request_key request) = Some r \<longrightarrow>
             fst (fetch_handler e request st) = RespondWith (Some r)))
   \<and> (\<not> (\<exists>r. network e (request_key request) = Some r \<and> ok r) \<longrightarrow>
        caches (snd (fetch_handler e request st)) = caches st)
   \<and> (\<forall>m. m \<noteq> DYNAMIC_CACHE_NAME \<longrightarrow>
        map_of (caches (snd (fetch_handler e request st))) m = map_of (caches st) m)
   \<and> ((\<forall>entry \<in> set (entries_of DYNAMIC_CACHE_NAME st). ok (snd entry)) \<longrightarrow>
      (\<forall>entry \<in> set (entries_of DYNAMIC_CACHE_NAME (snd (fetch_handler e request st))).
          ok (snd entry)))"
proof -
  have p2: "classify request = API_LANE \<or>
       classify request = PAGE_LANE \<and> match_all (request_key request) (caches st) = None \<longrightarrow>
        Fetch (request_key request) \<in> set (new_effects st (snd (fetch_handler e request st))) \<and>
        (\<forall>r. network e (request_key request) = Some r \<longrightarrow>
             fst (fetch_handler e request st) = RespondWith (Some r))"
    unfolding fetch_handler_effects fetch_handler_outcome
    by (auto split: lane.splits option.splits)
  have p3: "\<not> (\<exists>r. network e (request_key request) = Some r \<and> ok r) \<longrightarrow>
        caches (snd (fetch_handler e request st)) = caches st"
    using fetch_handler_caches_unchanged [of e request st] by blast
  have p4: "\<forall>m. m \<noteq> DYNAMIC_CACHE_NAME \<longrightarrow>
        map_of (caches (snd (fetch_handler e request st))) m = map_of (caches st) m"
    by (simp add: fetch_handler_other_caches)
  have p5: "(\<forall>entry \<in> set (entries_of DYNAMIC_CACHE_NAME st). ok (snd entry)) \<longrightarrow>
      (\<forall>entry \<in> set (entries_of DYNAMIC_CACHE_NAME (snd (fetch_handler e request st))).
          ok (snd entry))"
    unfolding fetch_handler_dynamic_entries
    by (auto simp: remove_key_def split: option.splits)
  show ?thesis using fetch_handler_dynamic_entries [of e request st] p2 p3 p4 p5 by blast
qed

theorem dynamic_partition_written_iff_ok_and_storable_witness:
  "entries_of DYNAMIC_CACHE_NAME (snd (fetch_handler online_env rpc_request empty_state)) =
     [(request_key rpc_request, res200)]
   \<and> fst (fetch_handler online_env rpc_request empty_state) = RespondWith (Some res200)
   \<and> entries_of DYNAMIC_CACHE_NAME (snd (fetch_handler online_env icon_request empty_state)) =
     [(request_key icon_request, res200)]
   \<and> fst (fetch_handler failing_env rpc_request preloaded_state) = RespondWith (Some res404)
   \<and> caches (snd (fetch_handler failing_env rpc_request preloaded_state)) =
     caches preloaded_state"
proof -
  have lane: "classify rpc_request = API_LANE"
    by (simp add: classify_def rpc_request_def href_def host_def)
  have lane2: "classify icon_request = PAGE_LANE"
    by (simp add: classify_def icon_request_def href_def host_def)
  have miss: "match_all (request_key icon_request) (caches empty_state) = None"
    by (simp add: empty_state_def)
  have n1: "network online_env (request_key rpc_request) = Some res200"
    by (simp add: online_env_def net200_def)
  have n2: "network failing_env (request_key rpc_request) = Some res404"
    by (simp add: failing_env_def net404_def)
  have n3: "network online_env (request_key icon_request) = Some res200"
    by (simp add: online_env_def net200_def)
  have ok1: "ok res200" by (simp add: ok_def res200_def)
  have ok2: "\<not> ok res404" by (simp add: ok_def res404_def)
  have none: "entries_of DYNAMIC_CACHE_NAME empty_state = []"
    by (simp add: entries_of_def empty_state_def)
  have a: "entries_of DYNAMIC_CACHE_NAME (snd (fetch_handler online_env rpc_request empty_state)) =
       [(request_key rpc_request, res200)]
     \<and> fst (fetch_handler online_env rpc_request empty_state) = RespondWith (Some res200)"
    using dynamic_partition_written_iff_ok_and_storable [of online_env rpc_request empty_state]
      lane n1 ok1 storable_res200 none
    by (simp add: remove_key_def)
  have b: "entries_of DYNAMIC_CACHE_NAME (snd (fetch_handler online_env icon_request empty_state)) =
       [(request_key icon_request, res200)]"
    using dynamic_partition_written_iff_ok_and_storable [of online_env icon_request empty_state]
      lane2 miss n3 ok1 storable_res200 none
    by (simp add: remove_key_def)
  have c: "fst (fetch_handler failing_env rpc_request preloaded_state) = RespondWith (Some res404)
     \<and> caches (snd (fetch_handler failing_env rpc_request preloaded_state)) =
       caches preloaded_state"
    using dynamic_partition_written_iff_ok_and_storable
            [of failing_env rpc_request preloaded_state]
      lane n2 ok2
    by simp
  show ?thesis using a b c by simp
qed

subsection \<open>Installation\<close>

lemma effects_fold_emit_fetch:
  "effects (fold (\<lambda>u. emit (Fetch u)) urls st) = effects st @ map Fetch urls"
  by (induction urls arbitrary: st) auto

lemma caches_fold_emit_fetch:
  "caches (fold (\<lambda>u. emit (Fetch u)) urls st) = caches st"
  by (induction urls arbitrary: st) auto

lemma effects_fold_put:
  "effects (fold (\<lambda>u s. case network e u of Some r \<Rightarrow> cache_put n u r s | None \<Rightarrow> s) urls st) =
     effects st @
     concat (map (\<lambda>u. case network e u of Some r \<Rightarrow> [CachePut n u r] | None \<Rightarrow> []) urls)"
  by (induction urls arbitrary: st) (auto split: option.splits)

lemma map_of_put_entry:
  "map_of (remove_key k c @ [(k, r)]) u = (if u = k then Some r else map_of c u)"
  using map_of_filter_key [of "\<lambda>x. x \<noteq> k" c u]
  by (simp add: remove_key_def map_add_def split: option.splits)

lemma fold_put_entries:
  assumes "\<forall>u \<in> set urls. addAll_accepts (network e u)"
    and "map_of (caches st) n \<noteq> None"
  shows "map_of (entries_of n
           (fold (\<lambda>u s. case network e u of Some r \<Rightarrow> cache_put n u r s | None \<Rightarrow> s) urls st)) u =
         (if u \<in> set urls then network e u else map_of (entries_of n st) u)"
  using assms
proof (induction urls arbitrary: st)
  case Nil
  then show ?case by simp
next
  case (Cons u0 urls)
  from Cons.prems(1) obtain r0 where r0: "network e u0 = Some r0" "storable r0"
    by (auto simp: addAll_accepts_def split: option.splits)
  let ?st1 = "cache_put n u0 r0 st"
  have exists1: "map_of (caches ?st1) n \<noteq> None"
    using Cons.prems(2) r0(2) by (simp add: caches_cache_put map_of_update_cache)
  have rest: "\<forall>u \<in> set urls. addAll_accepts (network e u)"
    using Cons.prems(1) by simp
  have first: "map_of (entries_of n ?st1) u = (if u = u0 then Some r0 else map_of (entries_of n st) u)"
    using Cons.prems(2) r0(2)
    by (simp add: entries_of_cache_put map_of_put_entry del: map_of_append)
  have "map_of (entries_of n
           (fold (\<lambda>u s. case network e u of Some r \<Rightarrow> cache_put n u r s | None \<Rightarrow> s)
              (u0 # urls) st)) u =
        map_of (entries_of n
           (fold (\<lambda>u s. case network e u of Some r \<Rightarrow> cache_put n u r s | None \<Rightarrow> s)
              urls ?st1)) u"
    using r0(1) by simp
  also have "\<dots> = (if u \<in> set urls then network e u else map_of (entries_of n ?st1) u)"
    using Cons.IH [OF rest exists1] .
  also have "\<dots> = (if u \<in> set (u0 # urls) then network e u else map_of (entries_of n st) u)"
    using first r0(1) by auto
  finally show ?case .
qed

lemma install_handler_effects:
  "new_effects st (snd (install_handler e st)) =
     [CachesOpen STATIC_CACHE_NAME] @ map Fetch (map (resolve e) STATIC_ASSETS) @
     (if list_all (\<lambda>u. addAll_accepts (network e u)) (map (resolve e) STATIC_ASSETS)
      then concat (map (\<lambda>u. case network e u of
                               Some r \<Rightarrow> [CachePut STATIC_CACHE_NAME u r] | None \<Rightarrow> [])
                     (map (resolve e) STATIC_ASSETS)) @ [SkipWaiting]
      else [])"
  by (rule new_effects_append)
     (simp add: install_handler_def cache_addAll_def Let_def effects_fold_emit_fetch
        effects_fold_put)

lemma preload_succeeds_iff:
  "list_all (\<lambda>u. addAll_accepts (network e u)) (map (resolve e) STATIC_ASSETS) \<longleftrightarrow>
     (\<forall>path \<in> set STATIC_ASSETS.
        \<exists>r. network e (resolve e path) = Some r \<and> ok r \<and> storable r)"
  by (auto simp: list_all_iff addAll_accepts_def split: option.splits)

lemma install_failure_entries:
  assumes "\<not> list_all (\<lambda>u. addAll_accepts (network e u)) (map (resolve e) STATIC_ASSETS)"
  shows "entries_of n (snd (install_handler e st)) = entries_of n st"
proof -
  have "caches (snd (install_handler e st)) = caches (caches_open STATIC_CACHE_NAME st)"
    using assms
    by (simp add: install_handler_def cache_addAll_def Let_def caches_fold_emit_fetch)
  then show ?thesis by (simp add: entries_of_def map_of_caches_open)
qed

lemma install_success_entries:
  assumes "list_all (\<lambda>u. addAll_accepts (network e u)) (map (resolve e) STATIC_ASSETS)"
    and "path \<in> set STATIC_ASSETS"
  shows "map_of (entries_of STATIC_CACHE_NAME (snd (install_handler e st))) (resolve e path) =
           network e (resolve e path)"
proof -
  let ?urls = "map (resolve e) STATIC_ASSETS"
  let ?st1 = "fold (\<lambda>u. emit (Fetch u)) ?urls (caches_open STATIC_CACHE_NAME st)"
  have all: "\<forall>u \<in> set ?urls. addAll_accepts (network e u)"
    using assms(1) by (simp add: list_all_iff)
  have exists1: "map_of (caches ?st1) STATIC_CACHE_NAME \<noteq> None"
    by (simp add: caches_fold_emit_fetch map_of_caches_open)
  have "snd (install_handler e st) =
        emit SkipWaiting
          (fold (\<lambda>u s. case network e u of
                          Some r \<Rightarrow> cache_put STATIC_CACHE_NAME u r s | None \<Rightarrow> s) ?urls ?st1)"
    using assms(1) by (simp add: install_handler_def cache_addAll_def Let_def)
  then show ?thesis
    using fold_put_entries [OF all exists1, of "resolve e path"] assms(2) by simp
qed

text \<open>
  C8, as stated, fails: when the preload fails, installation completes but
  \<^verbatim>\<open>skipWaiting\<close> is never called.
\<close>

theorem install_failure_no_skipWaiting_counterexample:
  "network offline_env (resolve offline_env ''/index.html'') = None
   \<and> fst (install_handler offline_env empty_state) = Fulfilled
   \<and> SkipWaiting \<notin> set (effects (snd (install_handler offline_env empty_state)))"
  by (simp add: install_handler_def cache_addAll_def Let_def STATIC_ASSETS_def
      offline_env_def no_network_def addAll_accepts_def effects_fold_emit_fetch empty_state_def)

text \<open>
  C8, amended. The install phase runs the static preload and completes without failing
  whether the preload succeeds or not. The preload succeeds exactly when every asset of
  the manifest is fetched with an \<open>ok\<close> response that the cache does not refuse (not a
  partial response, no Vary header listing \<^verbatim>\<open>*\<close>). The install phase calls
  \<^verbatim>\<open>skipWaiting\<close> if and only if the preload succeeded. After a successful preload the
  static cache holds, for every asset of the manifest, the response fetched for it; after
  a failed one the static cache holds what it held before.
\<close>

theorem install_completes_and_skips_waiting_iff_preloaded:
  "fst (install_handler e st) = Fulfilled
   \<and> (SkipWaiting \<in> set (new_effects st (snd (install_handler e st))) \<longleftrightarrow>
        (\<forall>path \<in> set STATIC_ASSETS.
           \<exists>r. network e (resolve e path) = Some r \<and> ok r \<and> storable r))
   \<and> ((\<forall>path \<in> set STATIC_ASSETS.
           \<exists>r. network e (resolve e path) = Some r \<and> ok r \<and> storable r) \<longrightarrow>
        (\<forall>path \<in> set STATIC_ASSETS.
           map_of (entries_of STATIC_CACHE_NAME (snd (install_handler e st))) (resolve e path) =
             network e (resolve e path)))
   \<and> (\<not> (\<forall>path \<in> set STATIC_ASSETS.
           \<exists>r. network e (resolve e path) = Some r \<and> ok r \<and> storable r) \<longrightarrow>
        entries_of STATIC_CACHE_NAME (snd (install_handler e st)) =
          entries_of STATIC_CACHE_NAME st)"
proof -
  have fin: "fst (install_handler e st) = Fulfilled"
    by (simp add: install_handler_def split: prod.splits bool.splits)
  have skip: "SkipWaiting \<in> set (new_effects st (snd (install_handler e st))) \<longleftrightarrow>
          list_all (\<lambda>u. addAll_accepts (network e u)) (map (resolve e) STATIC_ASSETS)"
    unfolding install_handler_effects by (auto split: option.splits)
  have stored: "list_all (\<lambda>u. addAll_accepts (network e u)) (map (resolve e) STATIC_ASSETS) \<longrightarrow>
        (\<forall>path \<in> set STATIC_ASSETS.
           map_of (entries_of STATIC_CACHE_NAME (snd (install_handler e st))) (resolve e path) =
             network e (resolve e path))"
    using install_success_entries [where e = e and st = st] by blast
  have kept: "\<not> list_all (\<lambda>u. addAll_accepts (network e u)) (map (resolve e) STATIC_ASSETS) \<longrightarrow>
        entries_of STATIC_CACHE_NAME (snd (install_handler e st)) =
          entries_of STATIC_CACHE_NAME st"
    using install_failure_entries [where e = e and st = st and n = STATIC_CACHE_NAME] by blast
  show ?thesis
    using fin skip stored kept unfolding preload_succeeds_iff by blast
qed

theorem install_completes_and_skips_waiting_iff_preloaded_witness:
  "fst (install_handler online_env empty_state) = Fulfilled
   \<and> SkipWaiting \<in> set (new_effects empty_state (snd (install_handler online_env empty_state)))
   \<and> map_of (entries_of STATIC_CACHE_NAME (snd (install_handler online_env empty_state)))
       (resolve online_env ''/index.html'') = Some res200
   \<and> SkipWaiting \<notin> set (new_effects empty_state (snd (install_handler offline_env empty_state)))
   \<and> SkipWaiting \<notin> set (new_effects empty_state (snd (install_handler partial_env empty_state)))
   \<and> entries_of STATIC_CACHE_NAME (snd (install_handler partial_env empty_state)) = []"
proof -
  have a: "\<forall>path \<in> set STATIC_ASSETS.
             \<exists>r. network online_env (resolve online_env path) = Some r \<and> ok r \<and> storable r"
    using storable_res200 by (simp add: online_env_def net200_def ok_def res200_def)
  have b: "\<not> (\<forall>path \<in> set STATIC_ASSETS.
             \<exists>r. network offline_env (resolve offline_env path) = Some r \<and> ok r \<and> storable r)"
    by (auto simp: offline_env_def no_network_def STATIC_ASSETS_def)
  have c: "\<not> (\<forall>path \<in> set STATIC_ASSETS.
             \<exists>r. network partial_env (resolve partial_env path) = Some r \<and> ok r \<and> storable r)"
    using not_storable_res206 by (auto simp: partial_env_def net206_def STATIC_ASSETS_def)
  have idx: "''/index.html'' \<in> set STATIC_ASSETS" by (simp add: STATIC_ASSETS_def)
  have net: "network online_env (resolve online_env ''/index.html'') = Some res200"
    by (simp add: online_env_def net200_def)
  have none: "entries_of STATIC_CACHE_NAME empty_state = []"
    by (simp add: entries_of_def empty_state_def)
  show ?thesis
    using install_completes_and_skips_waiting_iff_preloaded [of online_env empty_state]
      install_completes_and_skips_waiting_iff_preloaded [of offline_env empty_state]
      install_completes_and_skips_waiting_iff_preloaded [of partial_env empty_state]
      a b c idx net none
    by auto
qed

subsection \<open>Activation\<close>

lemma fold_delete_if_old_caches:
  "caches (fold delete_if_old names st) =
     filter (\<lambda>p. \<not> (fst p \<in> set names \<and> fst p \<noteq> STATIC_CACHE_NAME \<and>
                       fst p \<noteq> DYNAMIC_CACHE_NAME)) (caches st)"
proof (induction names arbitrary: st)
  case Nil
  then show ?case by simp
next
  case (Cons name names)
  have step: "caches (delete_if_old name st) =
      filter (\<lambda>p. \<not> (fst p = name \<and> fst p \<noteq> STATIC_CACHE_NAME \<and>
                        fst p \<noteq> DYNAMIC_CACHE_NAME)) (caches st)"
    by (auto simp: delete_if_old_def intro: filter_cong)
  have "caches (fold delete_if_old (name # names) st) =
        caches (fold delete_if_old names (delete_if_old name st))"
    by simp
  also have "\<dots> = filter (\<lambda>p. \<not> (fst p \<in> set names \<and> fst p \<noteq> STATIC_CACHE_NAME \<and>
                       fst p \<noteq> DYNAMIC_CACHE_NAME)) (caches (delete_if_old name st))"
    by (rule Cons.IH)
  also have "\<dots> = filter (\<lambda>p. \<not> (fst p \<in> set (name # names) \<and> fst p \<noteq> STATIC_CACHE_NAME \<and>
                       fst p \<noteq> DYNAMIC_CACHE_NAME)) (caches st)"
    unfolding step by (auto intro: filter_cong)
  finally show ?case .
qed

lemma fold_delete_if_old_effects:
  "effects (fold delete_if_old names st) =
     effects st @
     map CachesDelete
       (filter (\<lambda>name. name \<noteq> STATIC_CACHE_NAME \<and> name \<noteq> DYNAMIC_CACHE_NAME) names)"
  by (induction names arbitrary: st) (auto simp: delete_if_old_def)

lemma activate_handler_caches:
  "caches (snd (activate_handler st)) =
     filter (\<lambda>p. fst p = STATIC_CACHE_NAME \<or> fst p = DYNAMIC_CACHE_NAME) (caches st)"
proof -
  have "caches (snd (activate_handler st)) =
      filter (\<lambda>p. \<not> (fst p \<in> set (map fst (caches st)) \<and> fst p \<noteq> STATIC_CACHE_NAME \<and>
                       fst p \<noteq> DYNAMIC_CACHE_NAME)) (caches st)"
    by (simp add: activate_handler_def caches_keys_def fold_delete_if_old_caches)
  also have "\<dots> = filter (\<lambda>p. fst p = STATIC_CACHE_NAME \<or> fst p = DYNAMIC_CACHE_NAME) (caches st)"
    by (rule filter_cong) auto
  finally show ?thesis .
qed

text \<open>
  C9. Activation keeps, of the existing caches, exactly those named by the current static
  name or the current dynamic name, in their order and with their entries; every other
  existing cache is deleted, and only those are.
\<close>

theorem activate_destroys_exactly_stale:
  "caches (snd (activate_handler st)) =
     filter (\<lambda>p. fst p = STATIC_CACHE_NAME \<or> fst p = DYNAMIC_CACHE_NAME) (caches st)
   \<and> (\<forall>name \<in> fst ` set (caches st).
        name \<notin> fst ` set (caches (snd (activate_handler st))) \<longleftrightarrow>
        name \<noteq> STATIC_CACHE_NAME \<and> name \<noteq> DYNAMIC_CACHE_NAME)
   \<and> map_of (caches (snd (activate_handler st))) STATIC_CACHE_NAME =
       map_of (caches st) STATIC_CACHE_NAME
   \<and> map_of (caches (snd (activate_handler st))) DYNAMIC_CACHE_NAME =
       map_of (caches st) DYNAMIC_CACHE_NAME
   \<and> (\<forall>name. CachesDelete name \<in> set (new_effects st (snd (activate_handler st))) \<longleftrightarrow>
        name \<in> fst ` set (caches st) \<and> name \<noteq> STATIC_CACHE_NAME \<and>
        name \<noteq> DYNAMIC_CACHE_NAME)"
proof -
  have eff: "new_effects st (snd (activate_handler st)) =
      [CachesKeys] @
      map CachesDelete
        (filter (\<lambda>name. name \<noteq> STATIC_CACHE_NAME \<and> name \<noteq> DYNAMIC_CACHE_NAME)
           (map fst (caches st))) @ [ClientsClaim]"
    by (rule new_effects_append)
       (simp add: activate_handler_def caches_keys_def fold_delete_if_old_effects)
  have p2: "\<forall>name \<in> fst ` set (caches st).
        name \<notin> fst ` set (caches (snd (activate_handler st))) \<longleftrightarrow>
        name \<noteq> STATIC_CACHE_NAME \<and> name \<noteq> DYNAMIC_CACHE_NAME"
    unfolding activate_handler_caches by force
  have p3: "map_of (caches (snd (activate_handler st))) STATIC_CACHE_NAME =
       map_of (caches st) STATIC_CACHE_NAME"
    unfolding activate_handler_caches
    using map_of_filter_key
            [of "\<lambda>name. name = STATIC_CACHE_NAME \<or> name = DYNAMIC_CACHE_NAME" "caches st"
                STATIC_CACHE_NAME]
    by simp
  have p4: "map_of (caches (snd (activate_handler st))) DYNAMIC_CACHE_NAME =
       map_of (caches st) DYNAMIC_CACHE_NAME"
    unfolding activate_handler_caches
    using map_of_filter_key
            [of "\<lambda>name. name = STATIC_CACHE_NAME \<or> name = DYNAMIC_CACHE_NAME" "caches st"
                DYNAMIC_CACHE_NAME]
    by simp
  have p5: "\<forall>name. CachesDelete name \<in> set (new_effects st (snd (activate_handler st))) \<longleftrightarrow>
        name \<in> fst ` set (caches st) \<and> name \<noteq> STATIC_CACHE_NAME \<and>
        name \<noteq> DYNAMIC_CACHE_NAME"
    unfolding eff by auto
  show ?thesis using activate_handler_caches p2 p3 p4 p5 by blast
qed

theorem activate_destroys_exactly_stale_witness:
  "caches (snd (activate_handler upgrade_state)) =
     [(STATIC_CACHE_NAME, [(site @ ''/index.html'', index_snapshot)]),
      (DYNAMIC_CACHE_NAME, [(''http://localhost:5173/icons/foo.png'', icon_snapshot)])]
   \<and> ''suisight-static-v0.9.0'' \<in> fst ` set (caches upgrade_state)
   \<and> ''suisight-static-v0.9.0'' \<notin> fst ` set (caches (snd (activate_handler upgrade_state)))
   \<and> CachesDelete ''suisight-dynamic-v0.9.0''
       \<in> set (new_effects upgrade_state (snd (activate_handler upgrade_state)))"
proof -
  have a: "''suisight-static-v0.9.0'' \<in> fst ` set (caches upgrade_state)"
    by (simp add: upgrade_state_def)
  have b: "''suisight-dynamic-v0.9.0'' \<in> fst ` set (caches upgrade_state)"
    by (simp add: upgrade_state_def)
  have c: "''suisight-static-v0.9.0'' \<noteq> STATIC_CACHE_NAME \<and>
           ''suisight-static-v0.9.0'' \<noteq> DYNAMIC_CACHE_NAME \<and>
           ''suisight-dynamic-v0.9.0'' \<noteq> STATIC_CACHE_NAME \<and>
           ''suisight-dynamic-v0.9.0'' \<noteq> DYNAMIC_CACHE_NAME"
    by (simp add: STATIC_CACHE_NAME_def DYNAMIC_CACHE_NAME_def)
  have d: "filter (\<lambda>p. fst p = STATIC_CACHE_NAME \<or> fst p = DYNAMIC_CACHE_NAME)
             (caches upgrade_state) =
           [(STATIC_CACHE_NAME, [(site @ ''/index.html'', index_snapshot)]),
            (DYNAMIC_CACHE_NAME, [(''http://localhost:5173/icons/foo.png'', icon_snapshot)])]"
    using c by (simp add: upgrade_state_def)
  show ?thesis
    using activate_destroys_exactly_stale [of upgrade_state] a b c d by auto
qed

end
